theory Spec2Isabelle
  imports Main "HOL-Library.Multiset"
begin

section \<open>The dot game server: data, storage seam, handlers\<close>

text \<open>
  The embedding follows \<^verbatim>\<open>server.js\<close> and \<^verbatim>\<open>passport-config.js\<close>. A handler is a
  function from the world (the two tables, the storage failures still to come, and the trace
  of what the process did) to a response and the new world. Every \<^verbatim>\<open>throw\<close> of the source
  is a value \<open>Inl err\<close>, every \<^verbatim>\<open>catch\<close> a branch.
\<close>

subsection \<open>Rows\<close>

text \<open>
  \<^verbatim>\<open>users(id, name, email, password)\<close> and
  \<^verbatim>\<open>user_stats(user_id, games_played, total_clicks, best_score)\<close>, with the column names of
  the SQL text in the source (prefixed \<open>u_\<close> for the users table). A stored password may be
  absent (\<open>None\<close>, SQL NULL) or empty: both are falsy for the test \<^verbatim>\<open>!user.password\<close>.
  The counters are integers without a bound: the column types are declared in
  \<^verbatim>\<open>init.sql\<close>, which is not among the sources.
\<close>

record user_row =
  u_id :: nat
  u_name :: string
  u_email :: string
  u_password :: "string option"

record stats_row =
  user_id :: nat
  games_played :: int
  total_clicks :: int
  best_score :: int

subsection \<open>Errors, statements, trace\<close>

datatype exn = ConnectionLost | Timeout | ConstraintViolation | HashArguments

text \<open>The seven SQL statements the two source files send, with their parameters.\<close>

datatype sql =
    SelectUserByEmail string
  | SelectUserById nat
  | InsertUser string string string
  | SelectStats nat
  | InsertStats nat int int
  | UpdateStats int int int nat
  | SelectLeaderboard

text \<open>What the process does besides answering, in the order it does it.\<close>

datatype event =
    Query sql
  | BcryptHash "string option"
  | BcryptCompare string string
  | ConsoleError exn
  | ConsoleErrorLabelled string exn

text \<open>\<^verbatim>\<open>result.rows\<close>: the rows a statement returns, by the table they come from.\<close>

record result =
  user_rows :: "user_row list"
  stats_rows :: "stats_row list"
  board_rows :: "(string \<times> int) list"

definition no_rows :: result where
  "no_rows = \<lparr>user_rows = [], stats_rows = [], board_rows = []\<rparr>"

record world =
  users :: "user_row list"
  user_stats :: "stats_row list"
  faults :: "exn option list"
  trace :: "event list"

subsection \<open>The relational store\<close>

text \<open>
  \<^verbatim>\<open>ORDER BY us.best_score DESC\<close>: insertion sort on the score, largest first; a row
  goes in front of the rows of equal score that came after it.
\<close>

fun insert_desc :: "(string \<times> int) \<Rightarrow> (string \<times> int) list \<Rightarrow> (string \<times> int) list" where
  "insert_desc x [] = [x]"
| "insert_desc x (y # ys) = (if snd y \<le> snd x then x # y # ys else y # insert_desc x ys)"

fun order_by_best_score_desc :: "(string \<times> int) list \<Rightarrow> (string \<times> int) list" where
  "order_by_best_score_desc [] = []"
| "order_by_best_score_desc (x # xs) = insert_desc x (order_by_best_score_desc xs)"

text \<open>\<^verbatim>\<open>FROM users u JOIN user_stats us ON u.id = us.user_id\<close>, selecting name and best score.\<close>

definition join_users_stats :: "world \<Rightarrow> (string \<times> int) list" where
  "join_users_stats w =
     concat (map (\<lambda>u. map (\<lambda>us. (u_name u, best_score us))
                          (filter (\<lambda>us. u_id u = user_id us) (user_stats w)))
                 (users w))"

text \<open>The leaderboard statement with its \<^verbatim>\<open>LIMIT\<close> as a parameter; the source sends 3.\<close>

definition topScores :: "nat \<Rightarrow> world \<Rightarrow> (string \<times> int) list" where
  "topScores n w = take n (order_by_best_score_desc (join_users_stats w))"

definition fresh_id :: "user_row list \<Rightarrow> nat" where
  "fresh_id us = Suc (fold max (map u_id us) 0)"

text \<open>
  Modelled from the spec: the schema of \<^verbatim>\<open>init.sql\<close>, which is missing from the sources.
  The spec gives \<^verbatim>\<open>users(id, name, email UNIQUE, password_hash)\<close> and
  \<^verbatim>\<open>user_stats(user_id UNIQUE FK, games_played, total_clicks, best_score)\<close>, and an id
  assigned at creation. So an insert that repeats an email or a user id, or whose user id
  is no user's, is refused with a constraint violation and changes nothing.
  The rest is the meaning of the SQL text in the source.
\<close>

fun exec :: "sql \<Rightarrow> world \<Rightarrow> exn + (result \<times> world)" where
  "exec (SelectUserByEmail e) w =
     Inr (no_rows\<lparr>user_rows := filter (\<lambda>u. u_email u = e) (users w)\<rparr>, w)"
| "exec (SelectUserById i) w =
     Inr (no_rows\<lparr>user_rows := filter (\<lambda>u. u_id u = i) (users w)\<rparr>, w)"
| "exec (InsertUser n e p) w =
     (if e \<in> set (map u_email (users w)) then Inl ConstraintViolation
      else let row = \<lparr>u_id = fresh_id (users w), u_name = n, u_email = e, u_password = Some p\<rparr>
           in Inr (no_rows\<lparr>user_rows := [row]\<rparr>, w\<lparr>users := users w @ [row]\<rparr>))"
| "exec (SelectStats uid) w =
     Inr (no_rows\<lparr>stats_rows := filter (\<lambda>us. user_id us = uid) (user_stats w)\<rparr>, w)"
| "exec (InsertStats uid c b) w =
     (if uid \<in> set (map user_id (user_stats w)) \<or> uid \<notin> set (map u_id (users w))
      then Inl ConstraintViolation
      else Inr (no_rows,
                w\<lparr>user_stats := user_stats w @
                     [\<lparr>user_id = uid, games_played = 1, total_clicks = c, best_score = b\<rparr>]\<rparr>))"
| "exec (UpdateStats g c b uid) w =
     Inr (no_rows,
          w\<lparr>user_stats :=
               map (\<lambda>us. if user_id us = uid
                          then us\<lparr>games_played := g, total_clicks := c, best_score := b\<rparr>
                          else us)
                   (user_stats w)\<rparr>)"
| "exec SelectLeaderboard w = Inr (no_rows\<lparr>board_rows := topScores 3 w\<rparr>, w)"

text \<open>
  \<^verbatim>\<open>pool.query(text, params)\<close>. The statement is sent; the storage layer may fail it
  (connection lost, timeout): \<open>faults\<close> lists, for the statements still to come, whether
  each fails and how, and an exhausted list means no more failures. A failed statement
  changes no table.
\<close>

definition next_fault :: "world \<Rightarrow> exn option" where
  "next_fault w = (case faults w of [] \<Rightarrow> None | f # _ \<Rightarrow> f)"

definition pool_query :: "sql \<Rightarrow> world \<Rightarrow> (exn + result) \<times> world" where
  "pool_query text w =
     (let w1 = w\<lparr>faults := tl (faults w), trace := trace w @ [Query text]\<rparr>
      in case next_fault w of
           Some err \<Rightarrow> (Inl err, w1)
         | None \<Rightarrow> (case exec text w1 of
                      Inl err \<Rightarrow> (Inl err, w1)
                    | Inr (res, w2) \<Rightarrow> (Inr res, w2)))"

text \<open>
  The helper \<^verbatim>\<open>query\<close> of \<^verbatim>\<open>server.js\<close>: on an error it writes
  \<^verbatim>\<open>console.error('Database query error:', err)\<close> and throws the error again.
\<close>

definition query :: "sql \<Rightarrow> world \<Rightarrow> (exn + result) \<times> world" where
  "query text w =
     (case pool_query text w of
        (Inr res, w1) \<Rightarrow> (Inr res, w1)
      | (Inl err, w1) \<Rightarrow>
          (Inl err, w1\<lparr>trace := trace w1 @ [ConsoleErrorLabelled ''Database query error:'' err]\<rparr>))"

text \<open>
  Modelled from the spec: \<^verbatim>\<open>db.query\<close> of the module \<^verbatim>\<open>./db\<close>, which
  \<^verbatim>\<open>passport-config.js\<close> requires and which is missing from the sources. The spec has one
  relational store behind both files, so it is the pool's query.
\<close>

definition db_query :: "sql \<Rightarrow> world \<Rightarrow> (exn + result) \<times> world" where
  "db_query text w = pool_query text w"

subsection \<open>\<^verbatim>\<open>authenticateUser\<close> (passport-config.js)\<close>

text \<open>
  The three ways the source calls \<^verbatim>\<open>done\<close>: \<^verbatim>\<open>done(e)\<close>,
  \<^verbatim>\<open>done(null, false, { message })\<close> and \<^verbatim>\<open>done(null, user)\<close>. The messages stand for
  the failure kinds of the spec: \<open>''No user with that email''\<close> is NoSuchUser,
  \<open>''Password is required''\<close> MissingPassword, \<open>''User account corrupted''\<close>
  CorruptAccount and \<open>''Password incorrect''\<close> WrongPassword.
\<close>

datatype done_args = DoneError exn | DoneFalse string | DoneUser user_row

text \<open>
  \<^verbatim>\<open>bcrypt.compare\<close> is the parameter \<open>compare\<close>; each call of it is written to the
  trace. The submitted password may be absent (\<open>None\<close>) or empty: both are falsy for
  \<^verbatim>\<open>!password\<close>.
\<close>

definition authenticateUser ::
  "(string \<Rightarrow> string \<Rightarrow> bool) \<Rightarrow> string \<Rightarrow> string option \<Rightarrow> world \<Rightarrow> done_args \<times> world" where
  "authenticateUser compare email password w =
     (case db_query (SelectUserByEmail email) w of
        (Inl e, w1) \<Rightarrow> (DoneError e, w1)
      | (Inr res, w1) \<Rightarrow>
          (case user_rows res of
             [] \<Rightarrow> (DoneFalse ''No user with that email'', w1)
           | user # _ \<Rightarrow>
               (case password of
                  None \<Rightarrow> (DoneFalse ''Password is required'', w1)
                | Some pw \<Rightarrow>
                    if pw = [] then (DoneFalse ''Password is required'', w1)
                    else (case u_password user of
                            None \<Rightarrow> (DoneFalse ''User account corrupted'', w1)
                          | Some h \<Rightarrow>
                              if h = [] then (DoneFalse ''User account corrupted'', w1)
                              else let w2 = w1\<lparr>trace := trace w1 @ [BcryptCompare pw h]\<rparr>
                                   in if compare pw h then (DoneUser user, w2)
                                      else (DoneFalse ''Password incorrect'', w2)))))"

subsection \<open>\<^verbatim>\<open>deserializeUser\<close> (passport-config.js)\<close>



subsection \<open>Responses\<close>

text \<open>
  \<^verbatim>\<open>(total_clicks / games_played).toFixed(2)\<close> is a floating point division followed by a
  rounding to two decimals; it is kept as its two operands. \<open>Number0\<close> is the number 0 of
  the other branch.
\<close>

datatype average = Number0 | ToFixed2 int int

datatype locals =
    RegisterLocals "string list" string string
  | DashboardLocals string int int average
  | LeaderboardLocals "(string \<times> int) list"

datatype response = Redirect string | SendStatus nat | Render string locals

definition console_error :: "exn \<Rightarrow> world \<Rightarrow> world" where
  "console_error err w = w\<lparr>trace := trace w @ [ConsoleError err]\<rparr>"

subsection \<open>Auth guards (server.js)\<close>

text \<open>\<^verbatim>\<open>req.isAuthenticated()\<close> holds when the session resolves to a user, \<^verbatim>\<open>req.user\<close>.\<close>

definition checkNotAuthenticated ::
  "user_row option \<Rightarrow> (world \<Rightarrow> response \<times> world) \<Rightarrow> world \<Rightarrow> response \<times> world" where
  "checkNotAuthenticated req_user next w =
     (case req_user of Some _ \<Rightarrow> (Redirect ''/'', w) | None \<Rightarrow> next w)"

definition ensureAuthenticated ::
  "user_row option \<Rightarrow> (user_row \<Rightarrow> world \<Rightarrow> response \<times> world) \<Rightarrow> world \<Rightarrow> response \<times> world" where
  "ensureAuthenticated req_user next w =
     (case req_user of Some user \<Rightarrow> next user w | None \<Rightarrow> (Redirect ''/login'', w))"

subsection \<open>\<^verbatim>\<open>POST /register\<close>\<close>

text \<open>
  \<^verbatim>\<open>bcrypt.hash(password, 10)\<close> is the parameter \<open>hash\<close>; it throws when the password is
  absent. The handler's \<^verbatim>\<open>catch\<close> renders the form again and writes nothing to the console.
\<close>

text \<open>What the handler's \<^verbatim>\<open>catch\<close> renders.\<close>

definition registration_failed :: "string \<Rightarrow> string \<Rightarrow> response" where
  "registration_failed name email =
     Render ''register''
       (RegisterLocals [''Registration failed. Email may already be in use.''] name email)"

definition post_register ::
  "(string \<Rightarrow> string) \<Rightarrow> string \<Rightarrow> string \<Rightarrow> string option \<Rightarrow> world \<Rightarrow> response \<times> world" where
  "post_register hash name email password w =
     (let failed = registration_failed name email;
          w1 = w\<lparr>trace := trace w @ [BcryptHash password]\<rparr>
      in case password of
           None \<Rightarrow> (failed, w1)
         | Some pw \<Rightarrow>
             (let hashedPassword = hash pw
              in case query (InsertUser name email hashedPassword) w1 of
                   (Inl err, w2) \<Rightarrow> (failed, w2)
                 | (Inr res, w2) \<Rightarrow> (Redirect ''/login'', w2)))"

subsection \<open>\<^verbatim>\<open>POST /game/result\<close>\<close>

text \<open>
  \<open>score\<close> is the value of \<^verbatim>\<open>parseInt(req.body.score)\<close> when that is an integer. (What the
  store does with NaN depends on the column types, which the sources do not declare.)
\<close>

definition post_game_result :: "user_row \<Rightarrow> int \<Rightarrow> world \<Rightarrow> response \<times> world" where
  "post_game_result req_user score w =
     (let userId = u_id req_user
      in case query (SelectStats userId) w of
           (Inl err, w1) \<Rightarrow> (SendStatus 500, console_error err w1)
         | (Inr statsCheck, w1) \<Rightarrow>
             (case stats_rows statsCheck of
                [] \<Rightarrow>
                  (case query (InsertStats userId score score) w1 of
                     (Inl err, w2) \<Rightarrow> (SendStatus 500, console_error err w2)
                   | (Inr _, w2) \<Rightarrow> (SendStatus 200, w2))
              | currentStats # _ \<Rightarrow>
                  (let newGamesPlayed = games_played currentStats + 1;
                       newTotalClicks = total_clicks currentStats + score;
                       newBestScore = max (best_score currentStats) score
                   in case query (UpdateStats newGamesPlayed newTotalClicks newBestScore userId) w1 of
                        (Inl err, w2) \<Rightarrow> (SendStatus 500, console_error err w2)
                      | (Inr _, w2) \<Rightarrow> (SendStatus 200, w2))))"

text \<open>
  The same handler as a task that yields at each \<^verbatim>\<open>await\<close>: the event loop runs a task up
  to its next statement, and between two statements of one task it may run another task.
  \<open>Start\<close> is the request as it arrives, \<open>Fetched\<close> the handler holding the rows of
  its \<^verbatim>\<open>SELECT\<close>, \<open>Answered\<close> the handler after its response.
\<close>

datatype task = Start user_row int | Fetched nat int result | Answered response

fun step :: "task \<Rightarrow> world \<Rightarrow> task \<times> world" where
  "step (Start req_user score) w =
     (case query (SelectStats (u_id req_user)) w of
        (Inl err, w1) \<Rightarrow> (Answered (SendStatus 500), console_error err w1)
      | (Inr statsCheck, w1) \<Rightarrow> (Fetched (u_id req_user) score statsCheck, w1))"
| "step (Fetched userId score statsCheck) w =
     (case stats_rows statsCheck of
        [] \<Rightarrow>
          (case query (InsertStats userId score score) w of
             (Inl err, w2) \<Rightarrow> (Answered (SendStatus 500), console_error err w2)
           | (Inr _, w2) \<Rightarrow> (Answered (SendStatus 200), w2))
      | currentStats # _ \<Rightarrow>
          (let newGamesPlayed = games_played currentStats + 1;
               newTotalClicks = total_clicks currentStats + score;
               newBestScore = max (best_score currentStats) score
           in case query (UpdateStats newGamesPlayed newTotalClicks newBestScore userId) w of
                (Inl err, w2) \<Rightarrow> (Answered (SendStatus 500), console_error err w2)
              | (Inr _, w2) \<Rightarrow> (Answered (SendStatus 200), w2)))"
| "step (Answered r) w = (Answered r, w)"

text \<open>
  Two requests in flight. A schedule says which of the two tasks the event loop runs next
  (\<open>False\<close> the first, \<open>True\<close> the second), one statement at a time.
\<close>

fun interleave :: "bool list \<Rightarrow> task \<times> task \<Rightarrow> world \<Rightarrow> (task \<times> task) \<times> world" where
  "interleave [] ts w = (ts, w)"
| "interleave (False # sched) (a, b) w = (case step a w of (a', w') \<Rightarrow> interleave sched (a', b) w')"
| "interleave (True # sched) (a, b) w = (case step b w of (b', w') \<Rightarrow> interleave sched (a, b') w')"

text \<open>Requests handled one after the other, each to its response.\<close>

fun record_results :: "user_row \<Rightarrow> int list \<Rightarrow> world \<Rightarrow> response list \<times> world" where
  "record_results u [] w = ([], w)"
| "record_results u (s # ss) w =
     (case post_game_result u s w of
        (r, w1) \<Rightarrow> (case record_results u ss w1 of (rs, w2) \<Rightarrow> (r # rs, w2)))"

subsection \<open>\<^verbatim>\<open>GET /dashboard\<close> and \<^verbatim>\<open>GET /leaderboard\<close>\<close>

definition get_dashboard :: "user_row \<Rightarrow> world \<Rightarrow> response \<times> world" where
  "get_dashboard req_user w =
     (let userId = u_id req_user
      in case query (SelectStats userId) w of
           (Inl err, w1) \<Rightarrow> (Redirect ''/'', console_error err w1)
         | (Inr res, w1) \<Rightarrow>
             (let (stats_games_played, stats_total_clicks, stats_best_score) =
                    (case stats_rows res of
                       [] \<Rightarrow> (0, 0, 0)
                     | row # _ \<Rightarrow> (games_played row, total_clicks row, best_score row));
                  averageClicks =
                    (if stats_games_played \<noteq> 0
                     then ToFixed2 stats_total_clicks stats_games_played
                     else Number0)
              in (Render ''dashboard''
                    (DashboardLocals (u_name req_user) stats_games_played stats_best_score
                       averageClicks),
                  w1)))"

definition get_leaderboard :: "user_row \<Rightarrow> world \<Rightarrow> response \<times> world" where
  "get_leaderboard req_user w =
     (case query SelectLeaderboard w of
        (Inl err, w1) \<Rightarrow> (Redirect ''/'', console_error err w1)
      | (Inr res, w1) \<Rightarrow>
          (let topUsers = map (\<lambda>row. (fst row, snd row)) (board_rows res)
           in (Render ''leaderboard'' (LeaderboardLocals topUsers), w1)))"

text \<open>The routes: each handler behind its guard.\<close>

definition app_post_register ::
  "(string \<Rightarrow> string) \<Rightarrow> user_row option \<Rightarrow> string \<Rightarrow> string \<Rightarrow> string option \<Rightarrow> world
     \<Rightarrow> response \<times> world" where
  "app_post_register hash req_user name email password =
     checkNotAuthenticated req_user (post_register hash name email password)"

definition app_post_game_result :: "user_row option \<Rightarrow> int \<Rightarrow> world \<Rightarrow> response \<times> world" where
  "app_post_game_result req_user score =
     ensureAuthenticated req_user (\<lambda>user. post_game_result user score)"

definition app_get_dashboard :: "user_row option \<Rightarrow> world \<Rightarrow> response \<times> world" where
  "app_get_dashboard req_user = ensureAuthenticated req_user get_dashboard"

definition app_get_leaderboard :: "user_row option \<Rightarrow> world \<Rightarrow> response \<times> world" where
  "app_get_leaderboard req_user = ensureAuthenticated req_user get_leaderboard"

text \<open>The stats of one user, as the handlers read them.\<close>

definition stats_of :: "nat \<Rightarrow> world \<Rightarrow> stats_row list" where
  "stats_of uid w = filter (\<lambda>us. user_id us = uid) (user_stats w)"

definition created :: "nat \<Rightarrow> int \<Rightarrow> stats_row" where
  "created uid score =
     \<lparr>user_id = uid, games_played = 1, total_clicks = score, best_score = score\<rparr>"

definition updated :: "stats_row \<Rightarrow> int \<Rightarrow> stats_row \<Rightarrow> stats_row" where
  "updated cur score us =
     us\<lparr>games_played := games_played cur + 1, total_clicks := total_clicks cur + score,
        best_score := max (best_score cur) score\<rparr>"

subsection \<open>Concrete inputs\<close>

text \<open>
  An instance of the hash primitive to evaluate the handlers with: a fixed prefix and the
  reversed password. Like bcrypt it accepts the empty password, never returns the empty
  string, and its compare accepts exactly the password that was hashed.
\<close>

definition demo_hash :: "string \<Rightarrow> string" where
  "demo_hash pw = ''$2b$10$'' @ rev pw"

definition demo_compare :: "string \<Rightarrow> string \<Rightarrow> bool" where
  "demo_compare pw h = (h = demo_hash pw)"

definition empty_world :: world where
  "empty_world = \<lparr>users = [], user_stats = [], faults = [], trace = []\<rparr>"

text \<open>Alice registers with the password \<open>pw\<close> on the empty store.\<close>

definition alice :: "string \<Rightarrow> user_row" where
  "alice pw =
     \<lparr>u_id = 1, u_name = ''Alice'', u_email = ''a@x.com'', u_password = Some (demo_hash pw)\<rparr>"

definition alice_world :: "string \<Rightarrow> world" where
  "alice_world pw = snd (post_register demo_hash ''Alice'' ''a@x.com'' (Some pw) empty_world)"

text \<open>Alice's store with a stats row of zeros, and a store of four players.\<close>

definition zero_row_world :: world where
  "zero_row_world =
     (alice_world ''pw123'')
       \<lparr>user_stats := [\<lparr>user_id = 1, games_played = 0, total_clicks = 0, best_score = 0\<rparr>]\<rparr>"

definition player :: "nat \<Rightarrow> string \<Rightarrow> user_row" where
  "player i n = \<lparr>u_id = i, u_name = n, u_email = n @ ''@x.com'', u_password = Some (demo_hash n)\<rparr>"

definition played :: "nat \<Rightarrow> int \<Rightarrow> stats_row" where
  "played i b = \<lparr>user_id = i, games_played = 1, total_clicks = b, best_score = b\<rparr>"

definition board_world :: world where
  "board_world =
     \<lparr>users = [player 1 ''u1'', player 2 ''u2'', player 3 ''u3'', player 4 ''u4''],
      user_stats = [played 1 30, played 2 10, played 3 50, played 4 20],
      faults = [], trace = []\<rparr>"

section \<open>Properties\<close>

subsection \<open>The storage seam\<close>

lemma pool_query_select_user:
  "next_fault w = None \<Longrightarrow>
   pool_query (SelectUserByEmail e) w =
     (Inr (no_rows\<lparr>user_rows := filter (\<lambda>u. u_email u = e) (users w)\<rparr>),
      w\<lparr>faults := tl (faults w), trace := trace w @ [Query (SelectUserByEmail e)]\<rparr>)"
  by (simp add: pool_query_def)

lemma pool_query_trace: "trace (snd (pool_query q w)) = trace w @ [Query q]"
  by (cases q) (auto simp: pool_query_def Let_def split: option.splits sum.splits)

lemma query_Inr:
  assumes "query q w = (Inr r, w')"
  shows "next_fault w = None \<and>
         exec q (w\<lparr>faults := tl (faults w), trace := trace w @ [Query q]\<rparr>) = Inr (r, w')"
  using assms
  by (auto simp: query_def pool_query_def Let_def split: option.splits sum.splits prod.splits)

lemma query_ok:
  assumes "next_fault w = None"
    and "exec q (w\<lparr>faults := tl (faults w), trace := trace w @ [Query q]\<rparr>) = Inr (r, w')"
  shows "query q w = (Inr r, w')"
  using assms by (simp add: query_def pool_query_def)

lemma query_Inl:
  assumes "query q w = (Inl e, w')"
  shows "w' = w\<lparr>faults := tl (faults w),
                 trace := trace w @ [Query q, ConsoleErrorLabelled ''Database query error:'' e]\<rparr>"
  using assms
  by (auto simp: query_def pool_query_def Let_def split: option.splits sum.splits prod.splits)

lemma filter_email_unique:
  "distinct (map u_email us) \<Longrightarrow> U \<in> set us \<Longrightarrow> filter (\<lambda>u. u_email u = u_email U) us = [U]"
  by (induction us) (auto simp: filter_empty_conv image_iff)

lemma alice_world_users: "users (alice_world pw) = [alice pw]"
  by (simp add: alice_world_def alice_def post_register_def query_def pool_query_def next_fault_def
      empty_world_def fresh_id_def no_rows_def Let_def)

lemma alice_world_faults: "next_fault (alice_world pw) = None"
  by (simp add: alice_world_def alice_def post_register_def query_def pool_query_def next_fault_def
      empty_world_def fresh_id_def no_rows_def Let_def)

subsection \<open>Authentication\<close>

text \<open>
  C4, as amended. For every registered user \<open>U\<close> with a stored, non-empty password hash
  \<open>h\<close>, in a store whose emails are unique and whose lookup does not fail, and for every
  non-empty submitted password: \<open>authenticateUser\<close> calls \<^verbatim>\<open>done(null, U)\<close> when the hash
  primitive accepts the password (the correct password), and
  \<^verbatim>\<open>done(null, false, { message: 'Password incorrect' })\<close> (WrongPassword) when it does not.
\<close>

theorem authenticate_registered:
  assumes "U \<in> set (users w)" and "distinct (map u_email (users w))" and "next_fault w = None"
    and "u_password U = Some h" and "h \<noteq> []" and "pw \<noteq> []"
  shows "fst (authenticateUser compare (u_email U) (Some pw) w) =
           (if compare pw h then DoneUser U else DoneFalse ''Password incorrect'')"
proof -
  have rows: "filter (\<lambda>u. u_email u = u_email U) (users w) = [U]"
    using assms(1,2) by (simp add: filter_email_unique)
  show ?thesis
    using assms(3-6) rows
    by (simp add: authenticateUser_def db_query_def pool_query_select_user no_rows_def Let_def)
qed

theorem authenticate_registered_witness:
  "fst (authenticateUser demo_compare ''a@x.com'' (Some ''pw123'') (alice_world ''pw123''))
     = DoneUser (alice ''pw123'')
   \<and> fst (authenticateUser demo_compare ''a@x.com'' (Some ''pw124'') (alice_world ''pw123''))
     = DoneFalse ''Password incorrect''"
proof -
  have U: "alice ''pw123'' \<in> set (users (alice_world ''pw123''))"
    and d: "distinct (map u_email (users (alice_world ''pw123'')))"
    by (simp_all add: alice_world_users)
  have h: "u_password (alice ''pw123'') = Some (demo_hash ''pw123'')" "demo_hash ''pw123'' \<noteq> []"
    by (simp_all add: alice_def demo_hash_def)
  have e: "u_email (alice ''pw123'') = ''a@x.com''" by (simp add: alice_def)
  show ?thesis
    using authenticate_registered [OF U d alice_world_faults h, of "''pw123''" demo_compare]
      authenticate_registered [OF U d alice_world_faults h, of "''pw124''" demo_compare]
    by (simp add: e demo_compare_def demo_hash_def)
qed

text \<open>
  C4, as stated, fails when the correct password is the empty one. \<^verbatim>\<open>POST /register\<close>
  accepts an empty password and stores its hash; the hash primitive accepts the empty
  password against that hash; yet \<open>authenticateUser\<close> answers
  \<^verbatim>\<open>'Password is required'\<close> (MissingPassword), because \<^verbatim>\<open>!password\<close> is tested first.
\<close>

theorem authenticate_empty_correct_password_counterexample:
  "users (alice_world []) = [alice []]
   \<and> u_password (alice []) = Some (demo_hash [])
   \<and> demo_hash [] \<noteq> []
   \<and> demo_compare [] (demo_hash [])
   \<and> fst (authenticateUser demo_compare (u_email (alice [])) (Some []) (alice_world []))
       = DoneFalse ''Password is required''"
  by (simp add: alice_world_users alice_world_faults authenticateUser_def db_query_def
      pool_query_select_user no_rows_def alice_def demo_compare_def demo_hash_def)

text \<open>
  C5. For every email that no row of \<open>users\<close> has, every submitted password (absent and
  empty included) and every hash primitive, when the lookup does not fail:
  \<open>authenticateUser\<close> calls \<^verbatim>\<open>done(null, false, { message: 'No user with that email' })\<close>
  (NoSuchUser). The whole outcome is fixed by the email alone: besides that failure the
  world only gains the lookup in its trace, whatever the password, the primitive and the
  rows of the store are, and the primitive is not called.
\<close>

theorem authenticate_no_such_user:
  assumes "email \<notin> set (map u_email (users w))" and "next_fault w = None"
  shows "authenticateUser compare email password w =
           (DoneFalse ''No user with that email'',
            w\<lparr>faults := tl (faults w), trace := trace w @ [Query (SelectUserByEmail email)]\<rparr>)"
proof -
  have "filter (\<lambda>u. u_email u = email) (users w) = []"
    using assms(1) by (auto simp: filter_empty_conv)
  then show ?thesis
    using assms(2)
    by (simp add: authenticateUser_def db_query_def pool_query_select_user no_rows_def)
qed

theorem authenticate_no_such_user_witness:
  "fst (authenticateUser demo_compare ''b@x.com'' (Some ''pw123'') (alice_world ''pw123''))
     = DoneFalse ''No user with that email''
   \<and> fst (authenticateUser demo_compare ''b@x.com'' (Some []) (alice_world ''pw123''))
     = DoneFalse ''No user with that email''
   \<and> fst (authenticateUser demo_compare ''b@x.com'' None (alice_world ''pw123''))
     = DoneFalse ''No user with that email''"
proof -
  have e: "''b@x.com'' \<notin> set (map u_email (users (alice_world ''pw123'')))"
    by (simp add: alice_world_users alice_def)
  show ?thesis
    using authenticate_no_such_user [OF e alice_world_faults, of demo_compare "Some ''pw123''"]
      authenticate_no_such_user [OF e alice_world_faults, of demo_compare "Some []"]
      authenticate_no_such_user [OF e alice_world_faults, of demo_compare None]
    by simp
qed

text \<open>
  C6. When the submitted password is absent or empty: for every registered user \<open>U\<close>
  (whatever is stored as its hash) whose lookup does not fail, \<open>authenticateUser\<close> calls
  \<^verbatim>\<open>done(null, false, { message: 'Password is required' })\<close> (MissingPassword); and for every
  email, registered or not, the only thing the call adds to the trace is the lookup, so
  \<^verbatim>\<open>bcrypt.compare\<close> is not called on an empty submitted password.
\<close>

theorem authenticate_missing_password:
  assumes "password = None \<or> password = Some []"
  shows "(U \<in> set (users w) \<and> next_fault w = None \<longrightarrow>
            fst (authenticateUser compare (u_email U) password w)
              = DoneFalse ''Password is required'')
         \<and> trace (snd (authenticateUser compare email password w))
             = trace w @ [Query (SelectUserByEmail email)]"
proof (intro conjI impI)
  assume a: "U \<in> set (users w) \<and> next_fault w = None"
  then have "filter (\<lambda>u. u_email u = u_email U) (users w) \<noteq> []"
    by (auto simp: filter_empty_conv)
  then obtain x xs where "filter (\<lambda>u. u_email u = u_email U) (users w) = x # xs"
    by (cases "filter (\<lambda>u. u_email u = u_email U) (users w)") auto
  then show "fst (authenticateUser compare (u_email U) password w)
               = DoneFalse ''Password is required''"
    using a assms
    by (auto simp: authenticateUser_def db_query_def pool_query_select_user no_rows_def)
next
  have t: "trace (snd (pool_query (SelectUserByEmail email) w))
             = trace w @ [Query (SelectUserByEmail email)]"
    by (rule pool_query_trace)
  show "trace (snd (authenticateUser compare email password w))
          = trace w @ [Query (SelectUserByEmail email)]"
    using assms t
    by (auto simp: authenticateUser_def db_query_def split: prod.splits sum.splits list.splits)
qed

theorem authenticate_missing_password_witness:
  "fst (authenticateUser demo_compare ''a@x.com'' (Some []) (alice_world ''pw123''))
     = DoneFalse ''Password is required''
   \<and> trace (snd (authenticateUser demo_compare ''a@x.com'' (Some []) (alice_world ''pw123'')))
     = trace (alice_world ''pw123'') @ [Query (SelectUserByEmail ''a@x.com'')]"
proof -
  have U: "alice ''pw123'' \<in> set (users (alice_world ''pw123''))"
    by (simp add: alice_world_users)
  have e: "u_email (alice ''pw123'') = ''a@x.com''" by (simp add: alice_def)
  show ?thesis
    using authenticate_missing_password
      [of "Some []" "alice ''pw123''" "alice_world ''pw123''" demo_compare "''a@x.com''"]
      U alice_world_faults
    by (simp add: e)
qed

subsection \<open>Game results\<close>

lemmas eval_defs =
  alice_world_def alice_def post_register_def query_def pool_query_def next_fault_def
  empty_world_def fresh_id_def no_rows_def Let_def post_game_result_def console_error_def
  stats_of_def demo_hash_def zero_row_world_def

lemma post_game_result_200:
  assumes "post_game_result u score w = (SendStatus 200, w')"
  shows "w' = w\<lparr>faults := tl (tl (faults w)),
                 user_stats :=
                   (case stats_of (u_id u) w of
                      [] \<Rightarrow> user_stats w @ [created (u_id u) score]
                    | cur # _ \<Rightarrow> map (\<lambda>us. if user_id us = u_id u then updated cur score us else us)
                                    (user_stats w)),
                 trace := trace w @
                   [Query (SelectStats (u_id u)),
                    Query (case stats_of (u_id u) w of
                             [] \<Rightarrow> InsertStats (u_id u) score score
                           | cur # _ \<Rightarrow> UpdateStats (games_played cur + 1) (total_clicks cur + score)
                                          (max (best_score cur) score) (u_id u))]\<rparr>"
proof -
  obtain x1 w1 where q1: "query (SelectStats (u_id u)) w = (x1, w1)" by fastforce
  with assms obtain r1 where x1: "x1 = Inr r1"
    by (cases x1) (auto simp: post_game_result_def Let_def)
  from query_Inr [OF q1 [unfolded x1]]
  have r1: "stats_rows r1 = stats_of (u_id u) w"
    and w1: "w1 = w\<lparr>faults := tl (faults w), trace := trace w @ [Query (SelectStats (u_id u))]\<rparr>"
    by (auto simp: stats_of_def no_rows_def)
  show ?thesis
  proof (cases "stats_of (u_id u) w")
    case Nil
    obtain x2 w2 where q2: "query (InsertStats (u_id u) score score) w1 = (x2, w2)" by fastforce
    with assms q1 x1 r1 Nil obtain r2 where x2: "x2 = Inr r2" and ww: "w' = w2"
      by (cases x2) (auto simp: post_game_result_def Let_def)
    from query_Inr [OF q2 [unfolded x2]] show ?thesis
      unfolding ww w1 using Nil by (auto simp: created_def split: if_splits)
  next
    case (Cons cur rest)
    let ?q = "UpdateStats (games_played cur + 1) (total_clicks cur + score)
                (max (best_score cur) score) (u_id u)"
    obtain x2 w2 where q2: "query ?q w1 = (x2, w2)" by fastforce
    with assms q1 x1 r1 Cons obtain r2 where x2: "x2 = Inr r2" and ww: "w' = w2"
      by (cases x2) (auto simp: post_game_result_def Let_def)
    from query_Inr [OF q2 [unfolded x2]] show ?thesis
      unfolding ww w1 using Cons by (auto simp: updated_def)
  qed
qed

lemma stats_of_200:
  assumes "post_game_result u score w = (SendStatus 200, w')"
  shows "stats_of (u_id u) w' =
           (case stats_of (u_id u) w of
              [] \<Rightarrow> [created (u_id u) score]
            | cur # _ \<Rightarrow> map (updated cur score) (stats_of (u_id u) w))"
proof -
  have upd: "user_id (updated cur score us) = user_id us" for cur us
    by (simp add: updated_def)
  have m: "filter (\<lambda>us. user_id us = uid)
             (map (\<lambda>us. if user_id us = uid then updated cur score us else us) xs)
           = map (updated cur score) (filter (\<lambda>us. user_id us = uid) xs)" for uid cur xs
    by (induction xs) (auto simp: upd)
  show ?thesis
    unfolding post_game_result_200 [OF assms]
    by (cases "stats_of (u_id u) w") (auto simp: stats_of_def m created_def)
qed

text \<open>With no storage failure to come and an existing user, the handler answers 200.\<close>

lemma post_game_result_succeeds:
  assumes "faults w = []" and "u_id u \<in> set (map u_id (users w))"
  shows "fst (post_game_result u score w) = SendStatus 200
         \<and> faults (snd (post_game_result u score w)) = []
         \<and> users (snd (post_game_result u score w)) = users w"
proof (cases "stats_of (u_id u) w")
  case Nil
  then have "u_id u \<notin> set (map user_id (user_stats w))"
    by (auto simp: stats_of_def filter_empty_conv)
  with assms Nil show ?thesis
    by (simp add: post_game_result_def query_def pool_query_def next_fault_def no_rows_def
        stats_of_def Let_def)
next
  case (Cons cur rest)
  with assms show ?thesis
    by (simp add: post_game_result_def query_def pool_query_def next_fault_def no_rows_def
        stats_of_def Let_def)
qed

lemma record_results_from_row:
  assumes "stats_of (u_id u) w = [r]" and "record_results u scores w = (rs, w')"
    and "\<forall>x\<in>set rs. x = SendStatus 200"
  shows "stats_of (u_id u) w' =
           [r\<lparr>games_played := games_played r + int (length scores),
              total_clicks := total_clicks r + sum_list scores,
              best_score := fold max scores (best_score r)\<rparr>]"
  using assms
proof (induction scores arbitrary: w r rs w')
  case Nil
  then show ?case by simp
next
  case (Cons s ss)
  obtain r0 w1 where p: "post_game_result u s w = (r0, w1)" by fastforce
  obtain rs1 w2 where q: "record_results u ss w1 = (rs1, w2)" by fastforce
  from Cons.prems(2) p q have rs: "rs = r0 # rs1" and w': "w' = w2" by auto
  with Cons.prems(3) have r0: "r0 = SendStatus 200" and rest: "\<forall>x\<in>set rs1. x = SendStatus 200"
    by auto
  have s1: "stats_of (u_id u) w1 = [updated r s r]"
    using stats_of_200 [OF p [unfolded r0]] Cons.prems(1) by simp
  from Cons.IH [OF s1 q rest] show ?case
    unfolding w' by (simp add: updated_def max.commute add.assoc)
qed

text \<open>
  C1. Starting from a store with no stats row for the user, after \<open>k \<ge> 1\<close> requests
  \<^verbatim>\<open>POST /game/result\<close> of that user with the scores \<open>s1, ..., sk\<close>, handled one after the
  other and each answered 200, the user has exactly one stats row, with
  \<open>games_played = k\<close>, \<open>total_clicks = s1 + ... + sk\<close> and
  \<open>best_score = max(s1, ..., sk)\<close>.
\<close>

theorem record_results_invariant:
  assumes "stats_of (u_id u) w = []" and "scores \<noteq> []"
    and "record_results u scores w = (rs, w')" and "\<forall>r\<in>set rs. r = SendStatus 200"
  shows "stats_of (u_id u) w' =
           [\<lparr>user_id = u_id u, games_played = int (length scores),
             total_clicks = sum_list scores, best_score = Max (set scores)\<rparr>]"
proof -
  obtain s ss where sc: "scores = s # ss" using assms(2) by (cases scores) auto
  obtain r0 w1 where p: "post_game_result u s w = (r0, w1)" by fastforce
  obtain rs1 w2 where q: "record_results u ss w1 = (rs1, w2)" by fastforce
  from assms(3) p q sc have rs: "rs = r0 # rs1" and w': "w' = w2" by auto
  with assms(4) have r0: "r0 = SendStatus 200" and rest: "\<forall>x\<in>set rs1. x = SendStatus 200"
    by auto
  have s1: "stats_of (u_id u) w1 = [created (u_id u) s]"
    using stats_of_200 [OF p [unfolded r0]] assms(1) by simp
  have mx: "fold max ss s = Max (insert s (set ss))"
    using Max.set_eq_fold [of s ss] by simp
  from record_results_from_row [OF s1 q rest] show ?thesis
    unfolding w' sc by (simp add: created_def mx)
qed

theorem record_results_invariant_witness:
  "fst (record_results (alice ''pw123'') [7, 3, 9] (alice_world ''pw123''))
     = [SendStatus 200, SendStatus 200, SendStatus 200]
   \<and> stats_of 1 (snd (record_results (alice ''pw123'') [7, 3, 9] (alice_world ''pw123'')))
     = [\<lparr>user_id = 1, games_played = 3, total_clicks = 19, best_score = 9\<rparr>]"
proof -
  let ?run = "record_results (alice ''pw123'') [7, 3, 9] (alice_world ''pw123'')"
  have rs: "fst ?run = [SendStatus 200, SendStatus 200, SendStatus 200]"
    by (simp add: eval_defs)
  have a1: "stats_of (u_id (alice ''pw123'')) (alice_world ''pw123'') = []"
    by (simp add: eval_defs)
  have a2: "[7, 3, 9] \<noteq> ([] :: int list)" by simp
  have a3: "?run = (fst ?run, snd ?run)" by simp
  have a4: "\<forall>r\<in>set (fst ?run). r = SendStatus 200" unfolding rs by simp
  have id: "u_id (alice ''pw123'') = 1" by (simp add: alice_def)
  show ?thesis
    using record_results_invariant [OF a1 a2 a3 a4] rs by (simp add: id)
qed

text \<open>
  C2. For every user and every integer score (the non-negative ones among them), a request
  \<^verbatim>\<open>POST /game/result\<close> that is answered 200 has sent two statements, the \<^verbatim>\<open>SELECT\<close> and
  one write. When the user had no stats row, the write is the \<^verbatim>\<open>INSERT\<close> of a row with
  \<open>games_played = 1\<close>, \<open>total_clicks = score\<close>, \<open>best_score = score\<close>, appended to the
  table. Otherwise, with \<open>cur\<close> the first row read, the write is one \<^verbatim>\<open>UPDATE\<close> keyed by
  the user id that sets the three fields to \<open>games_played cur + 1\<close>,
  \<open>total_clicks cur + score\<close> and \<open>max (best_score cur) score\<close> together, and no other
  user's row changes.
\<close>

theorem record_result_once:
  assumes "post_game_result u score w = (SendStatus 200, w')"
  shows "(stats_of (u_id u) w = [] \<longrightarrow>
            user_stats w' = user_stats w @
              [\<lparr>user_id = u_id u, games_played = 1, total_clicks = score, best_score = score\<rparr>]
            \<and> trace w' = trace w @
              [Query (SelectStats (u_id u)), Query (InsertStats (u_id u) score score)])
       \<and> (\<forall>cur rest. stats_of (u_id u) w = cur # rest \<longrightarrow>
            user_stats w' =
              map (\<lambda>us. if user_id us = u_id u
                         then us\<lparr>games_played := games_played cur + 1,
                                total_clicks := total_clicks cur + score,
                                best_score := max (best_score cur) score\<rparr>
                         else us)
                  (user_stats w)
            \<and> trace w' = trace w @
              [Query (SelectStats (u_id u)),
               Query (UpdateStats (games_played cur + 1) (total_clicks cur + score)
                        (max (best_score cur) score) (u_id u))])"
  unfolding post_game_result_200 [OF assms]
  by (auto simp: created_def updated_def)

theorem record_result_once_witness:
  "user_stats (snd (post_game_result (alice ''pw123'') 7 (alice_world ''pw123'')))
     = [\<lparr>user_id = 1, games_played = 1, total_clicks = 7, best_score = 7\<rparr>]
   \<and> user_stats (snd (post_game_result (alice ''pw123'') 3
        (snd (post_game_result (alice ''pw123'') 7 (alice_world ''pw123'')))))
     = [\<lparr>user_id = 1, games_played = 2, total_clicks = 10, best_score = 7\<rparr>]"
proof -
  let ?u = "alice ''pw123''"
  let ?w0 = "alice_world ''pw123''"
  let ?w1 = "snd (post_game_result ?u 7 ?w0)"
  let ?w2 = "snd (post_game_result ?u 3 ?w1)"
  have p1: "post_game_result ?u 7 ?w0 = (SendStatus 200, ?w1)"
    by (simp add: eval_defs)
  have p2: "post_game_result ?u 3 ?w1 = (SendStatus 200, ?w2)"
    by (simp add: eval_defs)
  have s0: "stats_of (u_id ?u) ?w0 = []" "user_stats ?w0 = []"
    by (simp_all add: eval_defs)
  have id: "u_id ?u = 1" by (simp add: alice_def)
  have c1: "user_stats ?w1 = [\<lparr>user_id = 1, games_played = 1, total_clicks = 7, best_score = 7\<rparr>]"
    using record_result_once [OF p1] s0 by (simp add: id)
  then have s1: "stats_of (u_id ?u) ?w1
      = [\<lparr>user_id = 1, games_played = 1, total_clicks = 7, best_score = 7\<rparr>]"
    by (simp add: stats_of_def id)
  have c2: "user_stats ?w2 = [\<lparr>user_id = 1, games_played = 2, total_clicks = 10, best_score = 7\<rparr>]"
    using record_result_once [OF p2] s1 c1 by (simp add: id)
  show ?thesis using c1 c2 by simp
qed

subsection \<open>Two requests in flight\<close>

text \<open>Two steps of a fresh task are the handler run to its response.\<close>

lemma step_twice:
  assumes "step (Start u s) w = (t, w1)" and "step t w1 = (t', w2)"
  shows "t' = Answered (fst (post_game_result u s w)) \<and> w2 = snd (post_game_result u s w)"
  using assms
  by (auto simp: post_game_result_def Let_def split: prod.splits sum.splits list.splits)

lemma interleave_first_twice:
  "interleave (False # False # sched) (Start u s, b) w =
     interleave sched (Answered (fst (post_game_result u s w)), b) (snd (post_game_result u s w))"
proof -
  obtain t w1 where s1: "step (Start u s) w = (t, w1)" by fastforce
  obtain t' w2 where s2: "step t w1 = (t', w2)" by fastforce
  from step_twice [OF s1 s2] show ?thesis
    using s1 s2 by (simp del: step.simps)
qed

lemma interleave_second_twice:
  "interleave (True # True # sched) (a, Start u s) w =
     interleave sched (a, Answered (fst (post_game_result u s w))) (snd (post_game_result u s w))"
proof -
  obtain t w1 where s1: "step (Start u s) w = (t, w1)" by fastforce
  obtain t' w2 where s2: "step t w1 = (t', w2)" by fastforce
  from step_twice [OF s1 s2] show ?thesis
    using s1 s2 by (simp del: step.simps)
qed

text \<open>
  C3, as amended. Starting from a store with no stats row for an existing user and no
  storage failure to come, the requests with scores 5 and 10 of that user leave one row
  with \<open>games_played = 2\<close>, \<open>total_clicks = 15\<close>, \<open>best_score = 10\<close>, both answered 200,
  when one request runs to its response before the other starts, in either order. The
  handler holds no lock and opens no transaction between its \<^verbatim>\<open>SELECT\<close> and its write.
\<close>

theorem two_results_serial:
  assumes "stats_of (u_id u) w = []" and "faults w = []" and "u_id u \<in> set (map u_id (users w))"
    and "sched = [False, False, True, True] \<or> sched = [True, True, False, False]"
  shows "fst (interleave sched (Start u 5, Start u 10) w)
           = (Answered (SendStatus 200), Answered (SendStatus 200))
         \<and> stats_of (u_id u) (snd (interleave sched (Start u 5, Start u 10) w))
           = [\<lparr>user_id = u_id u, games_played = 2, total_clicks = 15, best_score = 10\<rparr>]"
proof -
  have serial: "fst (post_game_result u b (snd (post_game_result u a w))) = SendStatus 200
      \<and> fst (post_game_result u a w) = SendStatus 200
      \<and> stats_of (u_id u) (snd (post_game_result u b (snd (post_game_result u a w))))
          = [updated (created (u_id u) a) b (created (u_id u) a)]" for a b
  proof -
    let ?w1 = "snd (post_game_result u a w)"
    have ok1: "fst (post_game_result u a w) = SendStatus 200" "faults ?w1 = []" "users ?w1 = users w"
      using post_game_result_succeeds [OF assms(2,3), of a] by simp_all
    then have p1: "post_game_result u a w = (SendStatus 200, ?w1)"
      by (metis prod.collapse)
    have s1: "stats_of (u_id u) ?w1 = [created (u_id u) a]"
      using stats_of_200 [OF p1] assms(1) by simp
    have ok2: "fst (post_game_result u b ?w1) = SendStatus 200"
      using post_game_result_succeeds [of ?w1 u b] ok1 assms(3) by simp
    then have p2: "post_game_result u b ?w1 = (SendStatus 200, snd (post_game_result u b ?w1))"
      by (metis prod.collapse)
    show ?thesis
      using stats_of_200 [OF p2] s1 ok1 ok2 by simp
  qed
  from assms(4) show ?thesis
  proof
    assume s: "sched = [False, False, True, True]"
    from serial [where a = 5 and b = 10] show ?thesis
      unfolding s interleave_first_twice interleave_second_twice
      by (simp add: updated_def created_def)
  next
    assume s: "sched = [True, True, False, False]"
    from serial [where a = 10 and b = 5] show ?thesis
      unfolding s interleave_first_twice interleave_second_twice
      by (simp add: updated_def created_def)
  qed
qed

theorem two_results_serial_witness:
  "stats_of 1 (snd (interleave [False, False, True, True]
       (Start (alice ''pw123'') 5, Start (alice ''pw123'') 10) (alice_world ''pw123'')))
     = [\<lparr>user_id = 1, games_played = 2, total_clicks = 15, best_score = 10\<rparr>]
   \<and> stats_of 1 (snd (interleave [True, True, False, False]
       (Start (alice ''pw123'') 5, Start (alice ''pw123'') 10) (alice_world ''pw123'')))
     = [\<lparr>user_id = 1, games_played = 2, total_clicks = 15, best_score = 10\<rparr>]"
proof -
  let ?u = "alice ''pw123''"
  let ?w = "alice_world ''pw123''"
  have a1: "stats_of (u_id ?u) ?w = []" by (simp add: eval_defs)
  have a2: "faults ?w = []" by (simp add: eval_defs)
  have a3: "u_id ?u \<in> set (map u_id (users ?w))" by (simp add: alice_world_users)
  have id: "u_id ?u = 1" by (simp add: alice_def)
  show ?thesis
    using two_results_serial [OF a1 a2 a3, of "[False, False, True, True]"]
      two_results_serial [OF a1 a2 a3, of "[True, True, False, False]"]
    by (simp add: id)
qed

text \<open>
  C3, as stated, fails. Both requests read before either writes: the schedule first,
  second, first, second. From the store with no row, both handlers find no row and both
  send the \<^verbatim>\<open>INSERT\<close>; the second is refused by the uniqueness of \<^verbatim>\<open>user_id\<close> and
  answered 500, and the row counts one game. From a row of zeros both handlers compute
  from the zeros, both are answered 200, and the second \<^verbatim>\<open>UPDATE\<close> overwrites the first:
  one game, 10 clicks.
\<close>

theorem two_results_lost_update_counterexample:
  "fst (interleave [False, True, False, True]
          (Start (alice ''pw123'') 5, Start (alice ''pw123'') 10) (alice_world ''pw123''))
     = (Answered (SendStatus 200), Answered (SendStatus 500))
   \<and> stats_of 1 (snd (interleave [False, True, False, True]
          (Start (alice ''pw123'') 5, Start (alice ''pw123'') 10) (alice_world ''pw123'')))
     = [\<lparr>user_id = 1, games_played = 1, total_clicks = 5, best_score = 5\<rparr>]
   \<and> fst (interleave [False, True, False, True]
          (Start (alice ''pw123'') 5, Start (alice ''pw123'') 10) zero_row_world)
     = (Answered (SendStatus 200), Answered (SendStatus 200))
   \<and> stats_of 1 (snd (interleave [False, True, False, True]
          (Start (alice ''pw123'') 5, Start (alice ''pw123'') 10) zero_row_world))
     = [\<lparr>user_id = 1, games_played = 1, total_clicks = 10, best_score = 10\<rparr>]"
  by (simp add: eval_defs)

subsection \<open>Leaderboard\<close>

lemma mset_insert_desc: "mset (insert_desc x xs) = add_mset x (mset xs)"
  by (induction xs) auto

lemma mset_order_by_best_score_desc: "mset (order_by_best_score_desc xs) = mset xs"
  by (induction xs) (auto simp: mset_insert_desc)

lemma set_insert_desc: "set (insert_desc x xs) = insert x (set xs)"
  using mset_insert_desc [of x xs] by (metis set_mset_add_mset_insert set_mset_mset)

lemma sorted_insert_desc:
  "sorted_wrt (\<lambda>a b. snd b \<le> snd a) xs \<Longrightarrow> sorted_wrt (\<lambda>a b. snd b \<le> snd a) (insert_desc x xs)"
  by (induction xs) (auto simp: set_insert_desc)

lemma sorted_order_by_best_score_desc:
  "sorted_wrt (\<lambda>a b. snd b \<le> snd a) (order_by_best_score_desc xs)"
  by (induction xs) (auto simp: sorted_insert_desc)

lemma set_join_users_stats:
  "set (join_users_stats w) =
     {(u_name u, best_score us) | u us.
        u \<in> set (users w) \<and> us \<in> set (user_stats w) \<and> u_id u = user_id us}"
  by (auto simp: join_users_stats_def)

lemma query_leaderboard:
  "next_fault w = None \<Longrightarrow>
   query SelectLeaderboard w =
     (Inr (no_rows\<lparr>board_rows := topScores 3 w\<rparr>),
      w\<lparr>faults := tl (faults w), trace := trace w @ [Query SelectLeaderboard]\<rparr>)"
  by (simp add: query_def pool_query_def topScores_def join_users_stats_def)

lemma topScores_rest:
  "\<exists>rest. mset (topScores n w @ rest) = mset (join_users_stats w)
      \<and> (\<forall>x\<in>set (topScores n w). \<forall>y\<in>set rest. snd y \<le> snd x)"
proof -
  let ?s = "order_by_best_score_desc (join_users_stats w)"
  have "sorted_wrt (\<lambda>a b. snd b \<le> snd a) (take n ?s @ drop n ?s)"
    by (simp add: sorted_order_by_best_score_desc)
  then have "\<forall>x\<in>set (take n ?s). \<forall>y\<in>set (drop n ?s). snd y \<le> snd x"
    unfolding sorted_wrt_append by blast
  moreover have "mset (take n ?s @ drop n ?s) = mset (join_users_stats w)"
    by (simp add: mset_order_by_best_score_desc)
  ultimately show ?thesis
    unfolding topScores_def by blast
qed

lemma length_order_by_best_score_desc: "length (order_by_best_score_desc xs) = length xs"
  using mset_order_by_best_score_desc [of xs] by (metis size_mset)

lemma topScores_board_world: "topScores 3 board_world = [(''u3'', 50), (''u1'', 30), (''u4'', 20)]"
  by (simp add: topScores_def join_users_stats_def board_world_def player_def played_def)

text \<open>
  C7. For every \<open>n\<close> and every store, \<open>topScores n\<close> (the statement of the source with
  \<^verbatim>\<open>LIMIT n\<close>; the handler sends \<^verbatim>\<open>LIMIT 3\<close>) is ordered by best score, largest first;
  it has \<open>n\<close> entries, or all of them when there are fewer; it is a prefix of a
  rearrangement of the joined rows, and no row left out has a larger score than a row
  returned; the joined rows are exactly the pairs of name and best score of a user and a
  stats row of that user. An authenticated \<^verbatim>\<open>GET /leaderboard\<close> whose statement does not
  fail renders \<open>topScores 3\<close>. For the best scores 30, 10, 50, 20 of \<open>u1, ..., u4\<close>,
  \<open>topScores 3\<close> is \<open>(u3, 50), (u1, 30), (u4, 20)\<close>; with no stats rows the result is empty.
\<close>

theorem topScores_correct:
  "sorted_wrt (\<lambda>a b. snd b \<le> snd a) (topScores n w)
   \<and> length (topScores n w) = min n (length (join_users_stats w))
   \<and> (\<exists>rest. mset (topScores n w @ rest) = mset (join_users_stats w)
         \<and> (\<forall>x\<in>set (topScores n w). \<forall>y\<in>set rest. snd y \<le> snd x))
   \<and> set (join_users_stats w) =
       {(u_name u, best_score us) | u us.
          u \<in> set (users w) \<and> us \<in> set (user_stats w) \<and> u_id u = user_id us}
   \<and> (next_fault w = None \<longrightarrow>
        fst (app_get_leaderboard (Some req_user) w)
          = Render ''leaderboard'' (LeaderboardLocals (topScores 3 w)))
   \<and> topScores 3 board_world = [(''u3'', 50), (''u1'', 30), (''u4'', 20)]
   \<and> (user_stats w = [] \<longrightarrow> topScores n w = [])"
proof (intro conjI impI)
  show "sorted_wrt (\<lambda>a b. snd b \<le> snd a) (topScores n w)"
    unfolding topScores_def by (rule sorted_wrt_take) (rule sorted_order_by_best_score_desc)
  show "length (topScores n w) = min n (length (join_users_stats w))"
    by (simp add: topScores_def length_order_by_best_score_desc)
  show "\<exists>rest. mset (topScores n w @ rest) = mset (join_users_stats w)
         \<and> (\<forall>x\<in>set (topScores n w). \<forall>y\<in>set rest. snd y \<le> snd x)"
    by (rule topScores_rest)
  show "set (join_users_stats w) =
       {(u_name u, best_score us) | u us.
          u \<in> set (users w) \<and> us \<in> set (user_stats w) \<and> u_id u = user_id us}"
    by (rule set_join_users_stats)
  show "topScores 3 board_world = [(''u3'', 50), (''u1'', 30), (''u4'', 20)]"
    by (rule topScores_board_world)
  show "topScores n w = []" if "user_stats w = []"
  proof -
    have "set (join_users_stats w) = {}"
      using that by (simp add: set_join_users_stats)
    then show ?thesis by (simp add: topScores_def)
  qed
  show "fst (app_get_leaderboard (Some req_user) w)
          = Render ''leaderboard'' (LeaderboardLocals (topScores 3 w))" if "next_fault w = None"
    using that
    by (simp add: app_get_leaderboard_def ensureAuthenticated_def get_leaderboard_def
        query_leaderboard no_rows_def)
qed

theorem topScores_correct_witness:
  "fst (app_get_leaderboard (Some (player 2 ''u2'')) board_world)
     = Render ''leaderboard'' (LeaderboardLocals [(''u3'', 50), (''u1'', 30), (''u4'', 20)])
   \<and> topScores 2 (alice_world ''pw123'') = []"
proof -
  have f: "next_fault board_world = None" by (simp add: next_fault_def board_world_def)
  have e: "user_stats (alice_world ''pw123'') = []" by (simp add: eval_defs)
  show ?thesis
    using topScores_correct [of 3 board_world "player 2 ''u2''"]
      topScores_correct [of 2 "alice_world ''pw123''" "player 2 ''u2''"] f e
    by simp
qed

subsection \<open>Registration\<close>

lemma query_fault:
  "next_fault w = Some err \<Longrightarrow>
   query q w =
     (Inl err,
      w\<lparr>faults := tl (faults w),
        trace := trace w @ [Query q, ConsoleErrorLabelled ''Database query error:'' err]\<rparr>)"
  by (simp add: query_def pool_query_def)

lemma query_select_stats:
  "next_fault w = None \<Longrightarrow>
   query (SelectStats uid) w =
     (Inr (no_rows\<lparr>stats_rows := stats_of uid w\<rparr>),
      w\<lparr>faults := tl (faults w), trace := trace w @ [Query (SelectStats uid)]\<rparr>)"
  by (simp add: query_def pool_query_def stats_of_def)

lemma post_register_cases:
  "post_register hash name email (Some pw) w =
     (if next_fault w = None \<and> email \<notin> set (map u_email (users w))
      then (Redirect ''/login'',
            w\<lparr>users := users w @
                 [\<lparr>u_id = fresh_id (users w), u_name = name, u_email = email,
                   u_password = Some (hash pw)\<rparr>],
              faults := tl (faults w),
              trace := trace w @ [BcryptHash (Some pw), Query (InsertUser name email (hash pw))]\<rparr>)
      else (registration_failed name email,
            w\<lparr>faults := tl (faults w),
              trace := trace w @
                [BcryptHash (Some pw), Query (InsertUser name email (hash pw)),
                 ConsoleErrorLabelled ''Database query error:''
                   (case next_fault w of Some err \<Rightarrow> err | None \<Rightarrow> ConstraintViolation)]\<rparr>))"
  by (cases "next_fault w")
    (auto simp: post_register_def registration_failed_def query_def pool_query_def Let_def
      next_fault_def)

text \<open>
  C8. For every name, email and password, \<^verbatim>\<open>POST /register\<close> first hashes the password
  and then sends one \<^verbatim>\<open>INSERT\<close> whose password parameter is the hash. When the store
  accepts it, the new row holds \<open>hash pw\<close> in its password column and nothing else
  changes; when it does not, no table changes. With an absent password nothing is sent.
  The table after the request depends on the password only through its hash: two
  passwords with the same hash leave the same rows.
\<close>

theorem register_stores_hash:
  "post_register hash name email (Some pw) w =
     (if next_fault w = None \<and> email \<notin> set (map u_email (users w))
      then (Redirect ''/login'',
            w\<lparr>users := users w @
                 [\<lparr>u_id = fresh_id (users w), u_name = name, u_email = email,
                   u_password = Some (hash pw)\<rparr>],
              faults := tl (faults w),
              trace := trace w @ [BcryptHash (Some pw), Query (InsertUser name email (hash pw))]\<rparr>)
      else (registration_failed name email,
            w\<lparr>faults := tl (faults w),
              trace := trace w @
                [BcryptHash (Some pw), Query (InsertUser name email (hash pw)),
                 ConsoleErrorLabelled ''Database query error:''
                   (case next_fault w of Some err \<Rightarrow> err | None \<Rightarrow> ConstraintViolation)]\<rparr>))
   \<and> post_register hash name email None w =
       (registration_failed name email, w\<lparr>trace := trace w @ [BcryptHash None]\<rparr>)
   \<and> (hash pw = hash pw' \<longrightarrow>
        users (snd (post_register hash name email (Some pw) w))
          = users (snd (post_register hash name email (Some pw') w)))"
proof (intro conjI impI)
  show "post_register hash name email None w =
       (registration_failed name email, w\<lparr>trace := trace w @ [BcryptHash None]\<rparr>)"
    by (simp add: post_register_def registration_failed_def)
  show "users (snd (post_register hash name email (Some pw) w))
          = users (snd (post_register hash name email (Some pw') w))" if "hash pw = hash pw'"
    using that by (simp add: post_register_cases)
qed (rule post_register_cases)

theorem register_stores_hash_witness:
  "map u_password (users (snd (post_register demo_hash ''Alice'' ''a@x.com'' (Some ''pw123'') empty_world)))
     = [Some ''$2b$10$321wp'']
   \<and> trace (snd (post_register demo_hash ''Alice'' ''a@x.com'' (Some ''pw123'') empty_world))
     = [BcryptHash (Some ''pw123''), Query (InsertUser ''Alice'' ''a@x.com'' ''$2b$10$321wp'')]"
  using register_stores_hash [of demo_hash "''Alice''" "''a@x.com''" "''pw123''" empty_world "''pw123''"]
  by (simp add: empty_world_def next_fault_def demo_hash_def)

subsection \<open>Storage failures\<close>

lemma dashboard_fault:
  assumes "next_fault w = Some err"
  shows "get_dashboard u w =
     (Redirect ''/'',
      w\<lparr>faults := tl (faults w),
        trace := trace w @
          [Query (SelectStats (u_id u)), ConsoleErrorLabelled ''Database query error:'' err,
           ConsoleError err]\<rparr>)"
  using assms by (simp add: get_dashboard_def query_fault console_error_def)







subsection \<open>Dashboard\<close>

lemma dashboard_ok:
  assumes "next_fault w = None"
  shows "fst (get_dashboard u w) =
     (case stats_of (u_id u) w of
        [] \<Rightarrow> Render ''dashboard'' (DashboardLocals (u_name u) 0 0 Number0)
      | row # _ \<Rightarrow>
          Render ''dashboard''
            (DashboardLocals (u_name u) (games_played row) (best_score row)
               (if games_played row \<noteq> 0 then ToFixed2 (total_clicks row) (games_played row)
                else Number0)))"
  using assms
  by (cases "stats_of (u_id u) w")
    (simp_all add: get_dashboard_def query_select_stats no_rows_def Let_def)

text \<open>
  C10. For every authenticated user with no stats row, \<^verbatim>\<open>GET /dashboard\<close> whose statement
  does not fail renders the dashboard with \<open>gamesPlayed = 0\<close>, \<open>bestScore = 0\<close> and
  \<open>averageClicks\<close> the number 0. And whatever the store holds, a rendered average that is
  a quotient has a divisor other than 0: the division is not performed when
  \<open>games_played\<close> is 0.
\<close>

theorem dashboard_without_stats:
  "(stats_of (u_id u) w = [] \<and> next_fault w = None \<longrightarrow>
      fst (app_get_dashboard (Some u) w)
        = Render ''dashboard'' (DashboardLocals (u_name u) 0 0 Number0))
   \<and> (fst (app_get_dashboard (Some u) w) = Render v (DashboardLocals n g b (ToFixed2 t d)) \<longrightarrow>
        d \<noteq> 0)"
proof (intro conjI impI)
  assume "stats_of (u_id u) w = [] \<and> next_fault w = None"
  then show "fst (app_get_dashboard (Some u) w)
        = Render ''dashboard'' (DashboardLocals (u_name u) 0 0 Number0)"
    by (simp add: app_get_dashboard_def ensureAuthenticated_def dashboard_ok)
next
  assume r: "fst (app_get_dashboard (Some u) w) = Render v (DashboardLocals n g b (ToFixed2 t d))"
  show "d \<noteq> 0"
  proof (cases "next_fault w")
    case None
    with r show ?thesis
      by (auto simp: app_get_dashboard_def ensureAuthenticated_def dashboard_ok
          split: list.splits if_splits)
  next
    case (Some err)
    with r show ?thesis
      by (simp add: app_get_dashboard_def ensureAuthenticated_def dashboard_fault)
  qed
qed

theorem dashboard_without_stats_witness:
  "fst (app_get_dashboard (Some (alice ''pw123'')) (alice_world ''pw123''))
     = Render ''dashboard'' (DashboardLocals ''Alice'' 0 0 Number0)
   \<and> fst (app_get_dashboard (Some (alice ''pw123''))
            (snd (post_game_result (alice ''pw123'') 7 (alice_world ''pw123''))))
     = Render ''dashboard'' (DashboardLocals ''Alice'' 1 7 (ToFixed2 7 1))
   \<and> (1 :: int) \<noteq> 0"
proof -
  let ?u = "alice ''pw123''"
  let ?w1 = "snd (post_game_result ?u 7 (alice_world ''pw123''))"
  have a: "stats_of (u_id ?u) (alice_world ''pw123'') = []
        \<and> next_fault (alice_world ''pw123'') = None"
    by (simp add: eval_defs)
  have b: "fst (app_get_dashboard (Some ?u) ?w1)
     = Render ''dashboard'' (DashboardLocals ''Alice'' 1 7 (ToFixed2 7 1))"
    by (simp add: eval_defs app_get_dashboard_def ensureAuthenticated_def get_dashboard_def)
  show ?thesis
    using dashboard_without_stats [of ?u "alice_world ''pw123''"] a b
      dashboard_without_stats [of ?u ?w1 "''dashboard''" "''Alice''" 1 7 7 1]
    by (simp add: alice_def)
qed

end
